theory Spec2Isabelle
  imports Complex_Main "HOL-Library.Sublist" "HOL-Library.Char_ord" "HOL-Library.List_Lexorder"
begin

section \<open>The grades table\<close>

text \<open>
  \<^verbatim>\<open>DatabaseManager._create_table\<close> declares one table, \<^verbatim>\<open>grades\<close>:
  \<^verbatim>\<open>
    id INTEGER PRIMARY KEY AUTOINCREMENT,
    student_name TEXT NOT NULL,
    email TEXT,
    class TEXT,
    division TEXT,
    roll_number TEXT,
    subject TEXT NOT NULL,
    score REAL NOT NULL
  \<close>
  A column declared \<^verbatim>\<open>NOT NULL\<close> holds a value in every row; a column without the
  constraint holds a value or NULL, which is \<open>None\<close> here. The column \<^verbatim>\<open>class\<close> is
  called \<open>student_class\<close>, the name \<^verbatim>\<open>add_grade\<close> gives its parameter, and \<^verbatim>\<open>id\<close> is
  \<open>id_key\<close>. Text is a list of characters and a score is a real number: the rounding of
  floating-point arithmetic is not part of the model.
\<close>

record grade_row =
  id_key :: int
  student_name :: string
  email :: "string option"
  student_class :: "string option"
  division :: "string option"
  roll_number :: "string option"
  subject :: string
  score :: real

text \<open>
  The exceptions of the \<^verbatim>\<open>sqlite3\<close> module that the statements of the source can raise.
  All three are subclasses of \<^verbatim>\<open>sqlite3.Error\<close>, hence of \<^verbatim>\<open>Exception\<close>.
  \<^item> \<open>ProgrammingError\<close>: the connection has been closed;
  \<^item> \<open>IntegrityError\<close>: a \<^verbatim>\<open>NOT NULL\<close> constraint failed;
  \<^item> \<open>OperationalError\<close>: the storage could not complete the statement (disk
    unavailable or full), or no row id is left.
\<close>

datatype error = ProgrammingError | IntegrityError | OperationalError

text \<open>
  The state behind a \<^verbatim>\<open>DatabaseManager\<close>: whether \<^verbatim>\<open>self.conn\<close> is still open, the rows
  of the table in insertion order, and the counter that \<^verbatim>\<open>AUTOINCREMENT\<close> keeps for the
  table (the largest row id ever handed out).
\<close>

record db =
  conn_open :: bool
  grades :: "grade_row list"
  sqlite_sequence :: int

section \<open>The storage engine\<close>

text \<open>
  Every call of \<^verbatim>\<open>cursor.execute\<close> and \<^verbatim>\<open>conn.commit\<close> takes a flag \<open>disk_ok\<close>: whether the
  storage completes that call. It is chosen by the environment, call by call.
\<close>

definition MAX_ROWID :: int where
  "MAX_ROWID = 9223372036854775807"

primrec max_rowid :: "grade_row list \<Rightarrow> int option" where
  "max_rowid [] = None"
| "max_rowid (r # rs) =
     (case max_rowid rs of None \<Rightarrow> Some (id_key r) | Some m \<Rightarrow> Some (max (id_key r) m))"

text \<open>
  The row id of an \<^verbatim>\<open>AUTOINCREMENT\<close> column: one more than the largest id in the table
  (1 for an empty table), and at least one more than the counter; no id is handed out once
  the largest 64-bit id has been used.
\<close>

definition new_rowid :: "db \<Rightarrow> error + int" where
  "new_rowid d =
     (case max_rowid (grades d) of
        None \<Rightarrow>
          if sqlite_sequence d = MAX_ROWID then Inl OperationalError
          else Inr (max 1 (sqlite_sequence d + 1))
      | Some m \<Rightarrow>
          if m \<ge> MAX_ROWID \<or> sqlite_sequence d = MAX_ROWID then Inl OperationalError
          else Inr (max (m + 1) (sqlite_sequence d + 1)))"

text \<open>
  \<^verbatim>\<open>INSERT INTO grades (student_name, email, class, division, roll_number, subject, score)
  VALUES (?, ?, ?, ?, ?, ?, ?)\<close> with the seven parameters bound (a primed name is the
  Python parameter of that name). A parameter is \<open>None\<close> when the caller passes Python's
  \<^verbatim>\<open>None\<close>. A failed statement leaves the table as it was.
\<close>

definition execute_insert ::
  "bool \<Rightarrow> db \<Rightarrow> string option \<Rightarrow> string option \<Rightarrow> string option \<Rightarrow> string option \<Rightarrow>
   string option \<Rightarrow> string option \<Rightarrow> real option \<Rightarrow> error + db" where
  "execute_insert disk_ok d student_name' email' student_class' division' roll_number' subject'
       score' =
     (if \<not> conn_open d then Inl ProgrammingError
      else if \<not> disk_ok then Inl OperationalError
      else case new_rowid d of
        Inl e \<Rightarrow> Inl e
      | Inr v \<Rightarrow>
          (case (student_name', subject', score') of
             (Some n, Some sb, Some x) \<Rightarrow>
               Inr (d\<lparr>grades := grades d @
                        [\<lparr>id_key = v, student_name = n, email = email',
                          student_class = student_class', division = division',
                          roll_number = roll_number', subject = sb, score = x\<rparr>],
                      sqlite_sequence := v\<rparr>)
           | _ \<Rightarrow> Inl IntegrityError))"

definition commit :: "bool \<Rightarrow> db \<Rightarrow> error + db" where
  "commit disk_ok d =
     (if \<not> conn_open d then Inl ProgrammingError
      else if \<not> disk_ok then Inl OperationalError
      else Inr d)"

text \<open>A \<^verbatim>\<open>SELECT\<close> on the table: the query \<open>q\<close> computes the rows that \<^verbatim>\<open>fetchall\<close> or
  \<^verbatim>\<open>fetchone\<close> hands back.\<close>

definition execute_select :: "bool \<Rightarrow> db \<Rightarrow> (grade_row list \<Rightarrow> 'a) \<Rightarrow> error + 'a" where
  "execute_select disk_ok d q =
     (if \<not> conn_open d then Inl ProgrammingError
      else if \<not> disk_ok then Inl OperationalError
      else Inr (q (grades d)))"

text \<open>\<^verbatim>\<open>ORDER BY id DESC\<close>.\<close>

definition order_by_id_desc :: "grade_row list \<Rightarrow> grade_row list" where
  "order_by_id_desc rs = rev (sort_key id_key rs)"

text \<open>
  The \<^verbatim>\<open>LIKE\<close> operator of the engine, pattern first: \<^verbatim>\<open>%\<close> matches any run of
  characters, also the empty one, \<^verbatim>\<open>_\<close> matches any one character, and any other
  character matches itself, the letters A to Z and a to z without regard to case.
\<close>

definition lower_ascii :: "char \<Rightarrow> char" where
  "lower_ascii c =
     (case map_of (zip ''ABCDEFGHIJKLMNOPQRSTUVWXYZ'' ''abcdefghijklmnopqrstuvwxyz'') c of
        None \<Rightarrow> c
      | Some l \<Rightarrow> l)"

fun like :: "string \<Rightarrow> string \<Rightarrow> bool" where
  "like [] [] = True"
| "like [] (c # cs) = False"
| "like (p # ps) [] = (p = CHR ''%'' \<and> like ps [])"
| "like (p # ps) (c # cs) =
     (if p = CHR ''%'' then like ps (c # cs) \<or> like (p # ps) cs
      else (p = CHR ''_'' \<or> lower_ascii p = lower_ascii c) \<and> like ps cs)"


section \<open>DatabaseManager\<close>

text \<open>
  \<^verbatim>\<open>__init__\<close>: connect and \<^verbatim>\<open>CREATE TABLE IF NOT EXISTS\<close>. The file either holds no
  table yet (\<open>None\<close>), and an empty one is created, or it holds a table and its counter,
  which are kept.
\<close>

definition init :: "(grade_row list \<times> int) option \<Rightarrow> db" where
  "init file =
     (case file of
        None \<Rightarrow> \<lparr>conn_open = True, grades = [], sqlite_sequence = 0\<rparr>
      | Some (t, q) \<Rightarrow> \<lparr>conn_open = True, grades = t, sqlite_sequence = q\<rparr>)"

text \<open>
  \<^verbatim>\<open>add_grade\<close>: the \<^verbatim>\<open>try\<close> block runs the insert and the commit; \<^verbatim>\<open>except Exception\<close>
  turns whatever either raised into the result \<^verbatim>\<open>False\<close>. The result is \<open>Inl e\<close> when the
  exception \<open>e\<close> leaves the method and \<open>Inr b\<close> when the method returns \<open>b\<close>. A commit that
  fails is rolled back by the engine.
\<close>

definition add_grade ::
  "bool \<times> bool \<Rightarrow> db \<Rightarrow> string option \<Rightarrow> string option \<Rightarrow> string option \<Rightarrow> string option \<Rightarrow>
   string option \<Rightarrow> string option \<Rightarrow> real option \<Rightarrow> (error + bool) \<times> db" where
  "add_grade io d student_name' email' student_class' division' roll_number' subject' score' =
     (case execute_insert (fst io) d student_name' email' student_class' division' roll_number'
             subject' score' of
        Inl e \<Rightarrow> (Inr False, d)
      | Inr d1 \<Rightarrow>
          (case commit (snd io) d1 of
             Inl e \<Rightarrow> (Inr False, d)
           | Inr d2 \<Rightarrow> (Inr True, d2)))"

definition get_all_grades :: "bool \<Rightarrow> db \<Rightarrow> error + grade_row list" where
  "get_all_grades disk_ok d = execute_select disk_ok d order_by_id_desc"

definition get_filtered_grades :: "bool \<Rightarrow> db \<Rightarrow> string \<Rightarrow> error + grade_row list" where
  "get_filtered_grades disk_ok d search_term =
     (let search_pattern = ''%'' @ search_term @ ''%''
      in execute_select disk_ok d
           (\<lambda>t. order_by_id_desc (filter (\<lambda>r. like search_pattern (student_name r)) t)))"

definition close :: "db \<Rightarrow> db" where
  "close d = d\<lparr>conn_open := False\<rparr>"






section \<open>Sequences of inserts\<close>

text \<open>One call of \<^verbatim>\<open>add_grade\<close>: the storage flags of its two statements and its seven
  arguments. \<open>add_grades\<close> makes the calls one after the other on the same manager.\<close>

type_synonym call =
  "(bool \<times> bool) \<times> string option \<times> string option \<times> string option \<times> string option \<times>
   string option \<times> string option \<times> real option"

fun add_grade_call :: "call \<Rightarrow> db \<Rightarrow> (error + bool) \<times> db" where
  "add_grade_call (io, n, e, c, dv, r, sb, x) d = add_grade io d n e c dv r sb x"

fun add_grades :: "call list \<Rightarrow> db \<Rightarrow> db" where
  "add_grades [] d = d"
| "add_grades (c # cs) d = add_grades cs (snd (add_grade_call c d))"

section \<open>What the specification says of the name filter\<close>

text \<open>
  The specification's reading of \<^verbatim>\<open>list_matching\<close>: the case-folded search string occurs
  in the case-folded name as a contiguous run of characters. Case folding is taken to be
  that of the engine, which folds the letters A to Z and no others.
\<close>

definition case_fold :: "string \<Rightarrow> string" where
  "case_fold s = map lower_ascii s"

definition spec_name_matches :: "string \<Rightarrow> string \<Rightarrow> bool" where
  "spec_name_matches search_term name = sublist (case_fold search_term) (case_fold name)"

section \<open>Facts about the engine\<close>

lemma like_percent: "like [CHR ''%''] s"
  by (induction s) auto

lemma like_percent_percent: "like ''%%'' s"
  by (cases s) (auto simp: like_percent)

lemma max_rowid_None: "max_rowid rs = None \<longleftrightarrow> rs = []"
  by (induction rs) (auto split: option.splits)

lemma max_rowid_Some: "max_rowid rs = Some m \<Longrightarrow> r \<in> set rs \<Longrightarrow> id_key r \<le> m"
  by (induction rs arbitrary: m) (auto split: option.splits simp: max_rowid_None)

lemma new_rowid_fresh: "new_rowid d = Inr v \<Longrightarrow> r \<in> set (grades d) \<Longrightarrow> id_key r < v"
  by (auto simp: new_rowid_def max_rowid_None split: option.splits if_splits
      dest: max_rowid_Some)

lemma new_rowid_seq: "new_rowid d = Inr v \<Longrightarrow> sqlite_sequence d < v"
  by (auto simp: new_rowid_def split: option.splits if_splits)

lemma set_order_by_id_desc [simp]: "set (order_by_id_desc rs) = set rs"
  by (simp add: order_by_id_desc_def)

lemma distinct_map_insort_key:
  "distinct (map f (insort_key f x xs)) \<longleftrightarrow> f x \<notin> f ` set xs \<and> distinct (map f xs)"
  by (induction xs) (auto simp: set_insort_key)

lemma distinct_map_sort_key: "distinct (map f (sort_key f xs)) \<longleftrightarrow> distinct (map f xs)"
  by (induction xs) (auto simp: distinct_map_insort_key)

text \<open>With a primary key, that is with no id twice, \<^verbatim>\<open>ORDER BY id DESC\<close> leaves the ids
  strictly descending.\<close>

lemma order_by_id_desc_strict:
  assumes "distinct (map id_key rs)"
  shows "sorted_wrt (>) (map id_key (order_by_id_desc rs))"
proof -
  have "distinct (map id_key (sort_key id_key rs))"
    using assms by (simp add: distinct_map_sort_key)
  moreover have "sorted (map id_key (sort_key id_key rs))"
    by (rule sorted_sort_key)
  ultimately have "sorted_wrt (<) (map id_key (sort_key id_key rs))"
    by (simp add: strict_sorted_iff)
  then show ?thesis
    by (simp add: order_by_id_desc_def rev_map [symmetric] sorted_wrt_rev)
qed

section \<open>Facts about \<open>add_grade\<close>\<close>

text \<open>When \<^verbatim>\<open>add_grade\<close> returns \<^verbatim>\<open>True\<close>, and what it has done then.\<close>

lemma add_grade_True:
  "add_grade io d n e c dv r sb x = (Inr True, d') \<longleftrightarrow>
     conn_open d \<and> fst io \<and> snd io \<and>
     (\<exists>v n' sb' x'. new_rowid d = Inr v \<and> n = Some n' \<and> sb = Some sb' \<and> x = Some x' \<and>
        d' = d\<lparr>grades := grades d @
                 [\<lparr>id_key = v, student_name = n', email = e, student_class = c,
                   division = dv, roll_number = r, subject = sb', score = x'\<rparr>],
               sqlite_sequence := v\<rparr>)"
  by (auto simp: add_grade_def execute_insert_def commit_def split: sum.splits option.splits)

text \<open>A call either leaves the state as it was or appends one row under a new id.\<close>

lemma add_grade_cases:
  "snd (add_grade io d n e c dv r sb x) = d \<or>
   (\<exists>v row. new_rowid d = Inr v \<and> id_key row = v \<and> student_class row = c \<and>
      division row = dv \<and>
      snd (add_grade io d n e c dv r sb x) = d\<lparr>grades := grades d @ [row], sqlite_sequence := v\<rparr>)"
proof (cases "fst (add_grade io d n e c dv r sb x) = Inr True")
  case True
  then have "add_grade io d n e c dv r sb x = (Inr True, snd (add_grade io d n e c dv r sb x))"
    by (metis prod.collapse)
  then obtain v n' sb' x' where "new_rowid d = Inr v"
    and "snd (add_grade io d n e c dv r sb x) = d\<lparr>grades := grades d @
                 [\<lparr>id_key = v, student_name = n', email = e, student_class = c,
                   division = dv, roll_number = r, subject = sb', score = x'\<rparr>],
               sqlite_sequence := v\<rparr>"
    unfolding add_grade_True by blast
  then show ?thesis
    by (intro disjI2 exI [of _ v] exI [of _ "\<lparr>id_key = v, student_name = n', email = e,
          student_class = c, division = dv, roll_number = r, subject = sb', score = x'\<rparr>"]) simp
next
  case False
  then show ?thesis
    by (auto simp: add_grade_def split: sum.splits)
qed

lemma add_grade_distinct:
  assumes "distinct (map id_key (grades d))"
  shows "distinct (map id_key (grades (snd (add_grade io d n e c dv r sb x))))"
proof -
  consider "snd (add_grade io d n e c dv r sb x) = d"
    | v row where "new_rowid d = Inr v" "id_key row = v"
        "snd (add_grade io d n e c dv r sb x) = d\<lparr>grades := grades d @ [row], sqlite_sequence := v\<rparr>"
    using add_grade_cases [of io d n e c dv r sb x] by blast
  then show ?thesis
  proof cases
    case 1
    then show ?thesis using assms by simp
  next
    case 2
    have "id_key row \<notin> id_key ` set (grades d)"
      using new_rowid_fresh [OF 2(1)] 2(2) by fastforce
    then show ?thesis using assms 2(3) by simp
  qed
qed

lemma add_grade_conn_open:
  "conn_open (snd (add_grade io d n e c dv r sb x)) = conn_open d"
  using add_grade_cases [of io d n e c dv r sb x] by auto

lemma add_grades_distinct:
  "distinct (map id_key (grades d)) \<Longrightarrow> distinct (map id_key (grades (add_grades cs d)))"
proof (induction cs arbitrary: d)
  case Nil
  then show ?case by simp
next
  case (Cons c cs)
  obtain io n e cl dv r sb x where c: "c = (io, n, e, cl, dv, r, sb, x)"
    by (cases c) auto
  show ?case using Cons.prems
    by (simp add: c Cons.IH add_grade_distinct)
qed

lemma add_grades_conn_open: "conn_open (add_grades cs d) = conn_open d"
proof (induction cs arbitrary: d)
  case Nil
  then show ?case by simp
next
  case (Cons c cs)
  obtain io n e cl dv r sb x where c: "c = (io, n, e, cl, dv, r, sb, x)"
    by (cases c) auto
  show ?case
    by (simp add: c Cons.IH add_grade_conn_open)
qed

section \<open>Round trip\<close>

text \<open>
  Claim C1. Whenever \<^verbatim>\<open>add_grade\<close> returns \<^verbatim>\<open>True\<close>, in whatever state and with whatever
  arguments, \<^verbatim>\<open>get_all_grades\<close> on the state it leaves returns a list that holds a row
  whose id is the id of no row that was in the table before, and is larger than every id
  the table has handed out, and whose seven other columns are the seven arguments as they
  were passed.
\<close>

theorem insert_then_list_all:
  assumes "add_grade io d n e c dv r sb x = (Inr True, d')"
  shows "\<exists>rs row. get_all_grades True d' = Inr rs \<and> row \<in> set rs \<and>
           id_key row \<notin> id_key ` set (grades d) \<and> sqlite_sequence d < id_key row \<and>
           Some (student_name row) = n \<and> email row = e \<and> student_class row = c \<and>
           division row = dv \<and> roll_number row = r \<and> Some (subject row) = sb \<and>
           Some (score row) = x"
proof -
  from assms obtain v n' sb' x' where op: "conn_open d"
    and v: "new_rowid d = Inr v" and args: "n = Some n'" "sb = Some sb'" "x = Some x'"
    and d': "d' = d\<lparr>grades := grades d @
                 [\<lparr>id_key = v, student_name = n', email = e, student_class = c,
                   division = dv, roll_number = r, subject = sb', score = x'\<rparr>],
               sqlite_sequence := v\<rparr>"
    unfolding add_grade_True by blast
  let ?row = "\<lparr>id_key = v, student_name = n', email = e, student_class = c,
                   division = dv, roll_number = r, subject = sb', score = x'\<rparr>"
  have "get_all_grades True d' = Inr (order_by_id_desc (grades d'))"
    using op d' by (simp add: get_all_grades_def execute_select_def)
  moreover have "?row \<in> set (order_by_id_desc (grades d'))"
    using d' by simp
  moreover have "id_key ?row \<notin> id_key ` set (grades d)"
    using new_rowid_fresh [OF v] by fastforce
  moreover have "sqlite_sequence d < id_key ?row"
    using new_rowid_seq [OF v] by simp
  ultimately show ?thesis
    using args by (intro exI [of _ "order_by_id_desc (grades d')"] exI [of _ ?row]) simp
qed

theorem insert_then_list_all_witness:
  "add_grade (True, True) (init None) (Some ''Alice'') (Some ''alice@example.org'') (Some ''10'')
     (Some ''B'') None (Some ''Math'') (Some 90) =
   (Inr True,
    \<lparr>conn_open = True,
     grades = [\<lparr>id_key = 1, student_name = ''Alice'', email = Some ''alice@example.org'',
                student_class = Some ''10'', division = Some ''B'', roll_number = None,
                subject = ''Math'', score = 90\<rparr>],
     sqlite_sequence = 1\<rparr>) \<and>
   (\<exists>rs row. get_all_grades True
        \<lparr>conn_open = True,
         grades = [\<lparr>id_key = 1, student_name = ''Alice'', email = Some ''alice@example.org'',
                student_class = Some ''10'', division = Some ''B'', roll_number = None,
                subject = ''Math'', score = 90\<rparr>],
         sqlite_sequence = 1\<rparr> = Inr rs \<and> row \<in> set rs \<and>
      id_key row \<notin> id_key ` set (grades (init None)) \<and>
      sqlite_sequence (init None) < id_key row \<and>
      Some (student_name row) = Some ''Alice'' \<and> email row = Some ''alice@example.org'' \<and>
      student_class row = Some ''10'' \<and> division row = Some ''B'' \<and> roll_number row = None \<and>
      Some (subject row) = Some ''Math'' \<and> Some (score row) = Some 90)"
proof -
  have h: "add_grade (True, True) (init None) (Some ''Alice'') (Some ''alice@example.org'')
      (Some ''10'') (Some ''B'') None (Some ''Math'') (Some 90) =
   (Inr True,
    \<lparr>conn_open = True,
     grades = [\<lparr>id_key = 1, student_name = ''Alice'', email = Some ''alice@example.org'',
                student_class = Some ''10'', division = Some ''B'', roll_number = None,
                subject = ''Math'', score = 90\<rparr>],
     sqlite_sequence = 1\<rparr>)"
    by (simp add: add_grade_def execute_insert_def commit_def init_def new_rowid_def
        MAX_ROWID_def)
  show ?thesis
    using h insert_then_list_all [OF h] by blast
qed

section \<open>Ordering\<close>

text \<open>
  Claim C5. Take an open store whose table has a primary key (no id twice), as every table
  that \<^verbatim>\<open>_create_table\<close> declares has, and make any sequence of calls of \<^verbatim>\<open>add_grade\<close>
  on it, whatever their arguments and whether they succeed or not. Then
  \<^verbatim>\<open>get_all_grades\<close> returns the rows of the table, each once, with strictly descending
  ids, and \<^verbatim>\<open>get_filtered_grades\<close>, for every search term, returns some of them, with
  strictly descending ids too.
\<close>

theorem listings_strictly_descending:
  assumes "distinct (map id_key (grades d))" and "conn_open d"
  shows "\<exists>rs fs. get_all_grades True (add_grades cs d) = Inr rs \<and>
           set rs = set (grades (add_grades cs d)) \<and>
           length rs = length (grades (add_grades cs d)) \<and>
           sorted_wrt (>) (map id_key rs) \<and>
           get_filtered_grades True (add_grades cs d) search_term = Inr fs \<and>
           set fs \<subseteq> set rs \<and>
           sorted_wrt (>) (map id_key fs)"
proof -
  let ?t = "grades (add_grades cs d)"
  have len: "length (order_by_id_desc ?t) = length ?t"
    by (simp add: order_by_id_desc_def)
  have dist: "distinct (map id_key ?t)"
    using assms(1) by (rule add_grades_distinct)
  have opn: "conn_open (add_grades cs d)"
    using assms(2) by (simp add: add_grades_conn_open)
  have "sorted_wrt (>) (map id_key (order_by_id_desc ?t))"
    using dist by (rule order_by_id_desc_strict)
  moreover have "sorted_wrt (>) (map id_key (order_by_id_desc (filter P ?t)))" for P
    using dist by (intro order_by_id_desc_strict) (simp add: distinct_map_filter)
  ultimately show ?thesis
    using opn len
    by (auto simp: get_all_grades_def get_filtered_grades_def execute_select_def)
qed

theorem listings_strictly_descending_witness:
  "distinct (map id_key (grades (init None))) \<and> conn_open (init None) \<and>
   (\<exists>rs fs.
      get_all_grades True
        (add_grades
          [((True, True), Some ''Alice'', None, Some ''10'', Some ''B'', None, Some ''Math'', Some 80),
           ((True, True), Some ''Bob'', None, Some ''10'', Some ''B'', None, Some ''Art'', Some 70)]
          (init None)) = Inr rs \<and>
      length rs = 2 \<and>
      sorted_wrt (>) (map id_key rs) \<and>
      get_filtered_grades True
        (add_grades
          [((True, True), Some ''Alice'', None, Some ''10'', Some ''B'', None, Some ''Math'', Some 80),
           ((True, True), Some ''Bob'', None, Some ''10'', Some ''B'', None, Some ''Art'', Some 70)]
          (init None)) ''al'' = Inr fs \<and>
      sorted_wrt (>) (map id_key fs))"
proof -
  let ?cs = "[((True, True), Some ''Alice'', None, Some ''10'', Some ''B'', None, Some ''Math'', Some 80),
           ((True, True), Some ''Bob'', None, Some ''10'', Some ''B'', None, Some ''Art'', Some 70)]"
  have h1: "distinct (map id_key (grades (init None)))" by (simp add: init_def)
  have h2: "conn_open (init None)" by (simp add: init_def)
  have n: "length (grades (add_grades ?cs (init None))) = 2"
    by (simp add: add_grade_def execute_insert_def commit_def init_def new_rowid_def
        MAX_ROWID_def)
  obtain rs fs where "get_all_grades True (add_grades ?cs (init None)) = Inr rs"
    and "length rs = length (grades (add_grades ?cs (init None)))"
    and "sorted_wrt (>) (map id_key rs)"
    and "get_filtered_grades True (add_grades ?cs (init None)) ''al'' = Inr fs"
    and "sorted_wrt (>) (map id_key fs)"
    using listings_strictly_descending [OF h1 h2, of ?cs "''al''"] by blast
  then show ?thesis
    using h1 h2 n by auto
qed

section \<open>Failures of the storage\<close>

text \<open>
  Claim C6. In every state, with every argument and whatever the storage does,
  \<^verbatim>\<open>add_grade\<close> returns a boolean: no exception leaves it. When the storage fails the
  insert or the commit, and whenever either statement raises anything at all, it returns
  \<^verbatim>\<open>False\<close>; when both statements go through it returns \<^verbatim>\<open>True\<close>.
\<close>

theorem add_grade_never_raises:
  "(\<exists>b. fst (add_grade io d n e c dv r sb x) = Inr b) \<and>
   (\<not> fst io \<or> \<not> snd io \<longrightarrow> fst (add_grade io d n e c dv r sb x) = Inr False) \<and>
   (\<forall>err. execute_insert (fst io) d n e c dv r sb x = Inl err \<longrightarrow>
      fst (add_grade io d n e c dv r sb x) = Inr False) \<and>
   (\<forall>d1 err. execute_insert (fst io) d n e c dv r sb x = Inr d1 \<and> commit (snd io) d1 = Inl err \<longrightarrow>
      fst (add_grade io d n e c dv r sb x) = Inr False) \<and>
   (\<forall>d1 d2. execute_insert (fst io) d n e c dv r sb x = Inr d1 \<and> commit (snd io) d1 = Inr d2 \<longrightarrow>
      fst (add_grade io d n e c dv r sb x) = Inr True)"
proof (intro conjI)
  show "\<exists>b. fst (add_grade io d n e c dv r sb x) = Inr b"
    by (auto simp: add_grade_def split: sum.splits)
  show "\<not> fst io \<or> \<not> snd io \<longrightarrow> fst (add_grade io d n e c dv r sb x) = Inr False"
    by (auto simp: add_grade_def execute_insert_def commit_def split: sum.splits)
qed (simp_all add: add_grade_def)

theorem add_grade_never_raises_witness:
  "fst (add_grade (False, True) (init None) (Some ''Alice'') None None None None (Some ''Math'')
     (Some 90)) = Inr False \<and>
   fst (add_grade (True, False) (init None) (Some ''Alice'') None None None None (Some ''Math'')
     (Some 90)) = Inr False \<and>
   fst (add_grade (True, True) (init None) None None None None None (Some ''Math'')
     (Some 90)) = Inr False \<and>
   fst (add_grade (True, True) (init None) (Some ''Alice'') None None None None (Some ''Math'')
     (Some 90)) = Inr True"
proof -
  let ?row = "\<lparr>id_key = 1, student_name = ''Alice'', email = None, student_class = None,
     division = None, roll_number = None, subject = ''Math'', score = 90\<rparr>"
  let ?d1 = "\<lparr>conn_open = True, grades = [?row], sqlite_sequence = 1\<rparr>"
  have a: "\<not> fst (False, True) \<or> \<not> snd (False, True)" by simp
  have b: "execute_insert (fst (True, False)) (init None) (Some ''Alice'') None None None None
      (Some ''Math'') (Some 90) = Inr ?d1 \<and> commit (snd (True, False)) ?d1 = Inl OperationalError"
    by (simp add: execute_insert_def commit_def init_def new_rowid_def MAX_ROWID_def)
  have c: "execute_insert (fst (True, True)) (init None) None None None None None
      (Some ''Math'') (Some 90) = Inl IntegrityError"
    by (simp add: execute_insert_def init_def new_rowid_def MAX_ROWID_def)
  have s: "execute_insert (fst (True, True)) (init None) (Some ''Alice'') None None None None
      (Some ''Math'') (Some 90) = Inr ?d1 \<and> commit (snd (True, True)) ?d1 = Inr ?d1"
    by (simp add: execute_insert_def commit_def init_def new_rowid_def MAX_ROWID_def)
  show ?thesis
    using a b c s
      add_grade_never_raises [of "(False, True)" "init None" "Some ''Alice''" None None None None
        "Some ''Math''" "Some 90"]
      add_grade_never_raises [of "(True, False)" "init None" "Some ''Alice''" None None None None
        "Some ''Math''" "Some 90"]
      add_grade_never_raises [of "(True, True)" "init None" None None None None None
        "Some ''Math''" "Some 90"]
      add_grade_never_raises [of "(True, True)" "init None" "Some ''Alice''" None None None None
        "Some ''Math''" "Some 90"]
    by metis
qed

text \<open>
  Claim C10. After \<^verbatim>\<open>close\<close>, \<^verbatim>\<open>add_grade\<close> returns \<^verbatim>\<open>False\<close>, with every argument and
  whatever the storage does: the error of the closed connection does not leave the
  method, and the state, the table in it, is what \<^verbatim>\<open>close\<close> left.
\<close>

theorem add_grade_after_close:
  "add_grade io (close d) n e c dv r sb x = (Inr False, close d)"
  by (simp add: add_grade_def execute_insert_def close_def)

section \<open>The empty search term\<close>

text \<open>
  Claim C7. In every state, \<^verbatim>\<open>get_filtered_grades\<close> with the empty search term returns
  what \<^verbatim>\<open>get_all_grades\<close> returns: the same rows in the same order, or the same error.
\<close>

theorem filter_empty_is_list_all:
  "get_filtered_grades disk_ok d [] = get_all_grades disk_ok d"
  by (simp add: get_filtered_grades_def get_all_grades_def like_percent_percent)

section \<open>The score range\<close>

text \<open>
  Claim C9. The store checks no range on the score. On an open store that has a row id
  left, with the storage working and a name and a subject given, \<^verbatim>\<open>add_grade\<close> returns
  \<^verbatim>\<open>True\<close> for every real score, inside \<open>[0, 100]\<close> or not, and the row it appends holds
  that score unchanged.
\<close>

theorem score_range_not_enforced:
  assumes "conn_open d" and "new_rowid d = Inr v"
  shows "add_grade (True, True) d (Some n) e c dv r (Some sb) (Some x) =
           (Inr True,
            d\<lparr>grades := grades d @
                 [\<lparr>id_key = v, student_name = n, email = e, student_class = c, division = dv,
                   roll_number = r, subject = sb, score = x\<rparr>],
              sqlite_sequence := v\<rparr>)"
  using assms by (simp add: add_grade_True)

theorem score_range_not_enforced_witness:
  "conn_open (init None) \<and> new_rowid (init None) = Inr 1 \<and>
   add_grade (True, True) (init None) (Some ''Alice'') None None None None (Some ''Math'')
       (Some 250) =
     (Inr True,
      (init None)\<lparr>grades := grades (init None) @
           [\<lparr>id_key = 1, student_name = ''Alice'', email = None, student_class = None,
             division = None, roll_number = None, subject = ''Math'', score = 250\<rparr>],
         sqlite_sequence := 1\<rparr>) \<and>
   add_grade (True, True) (init None) (Some ''Alice'') None None None None (Some ''Math'')
       (Some (- 7.5)) =
     (Inr True,
      (init None)\<lparr>grades := grades (init None) @
           [\<lparr>id_key = 1, student_name = ''Alice'', email = None, student_class = None,
             division = None, roll_number = None, subject = ''Math'', score = - 7.5\<rparr>],
         sqlite_sequence := 1\<rparr>)"
proof -
  have h1: "conn_open (init None)" by (simp add: init_def)
  have h2: "new_rowid (init None) = Inr 1" by (simp add: init_def new_rowid_def MAX_ROWID_def)
  show ?thesis
    using h1 h2 score_range_not_enforced [OF h1 h2] by simp
qed

section \<open>Aggregates\<close>






section \<open>Class and division\<close>

text \<open>
  Claim C8, as it is stated, fails: the table declares \<^verbatim>\<open>class TEXT\<close> and
  \<^verbatim>\<open>division TEXT\<close> with no \<^verbatim>\<open>NOT NULL\<close>, and \<^verbatim>\<open>add_grade\<close> on a new store, given
  \<^verbatim>\<open>None\<close> for both, returns \<^verbatim>\<open>True\<close> and leaves a row in which both are NULL.
\<close>

theorem class_division_nullable:
  "add_grade (True, True) (init None) (Some ''Alice'') None None None None (Some ''Math'')
       (Some 90) =
     (Inr True,
      \<lparr>conn_open = True,
       grades = [\<lparr>id_key = 1, student_name = ''Alice'', email = None, student_class = None,
                  division = None, roll_number = None, subject = ''Math'', score = 90\<rparr>],
       sqlite_sequence = 1\<rparr>)"
  by (simp add: add_grade_def execute_insert_def commit_def init_def new_rowid_def MAX_ROWID_def)

lemma add_grade_class_division:
  assumes old: "\<forall>r \<in> set (grades d). student_class r \<noteq> None \<and> division r \<noteq> None"
    and c: "c \<noteq> None" and dv: "dv \<noteq> None"
  shows "\<forall>r \<in> set (grades (snd (add_grade io d n e c dv rl sb x))).
           student_class r \<noteq> None \<and> division r \<noteq> None"
proof -
  consider "snd (add_grade io d n e c dv rl sb x) = d"
    | v row where "student_class row = c" "division row = dv"
        "snd (add_grade io d n e c dv rl sb x) = d\<lparr>grades := grades d @ [row], sqlite_sequence := v\<rparr>"
    using add_grade_cases [of io d n e c dv rl sb x] by blast
  then show ?thesis
  proof cases
    case 1
    then show ?thesis using old by simp
  next
    case 2
    then show ?thesis using old c dv by simp
  qed
qed

text \<open>
  Claim C8, amended. The store keeps class and division as they are passed: when every
  row of the table has both, any sequence of calls of \<^verbatim>\<open>add_grade\<close> that each pass both
  leaves a table in which every row has both.
\<close>

theorem class_division_as_supplied:
  assumes "\<forall>r \<in> set (grades d). student_class r \<noteq> None \<and> division r \<noteq> None"
    and "\<forall>(io, n, e, c, dv, rl, sb, x) \<in> set cs. c \<noteq> None \<and> dv \<noteq> None"
  shows "\<forall>r \<in> set (grades (add_grades cs d)). student_class r \<noteq> None \<and> division r \<noteq> None"
  using assms
proof (induction cs arbitrary: d)
  case Nil
  then show ?case by simp
next
  case (Cons a cs)
  obtain io n e c dv rl sb x where a: "a = (io, n, e, c, dv, rl, sb, x)"
    by (cases a) auto
  let ?d1 = "snd (add_grade io d n e c dv rl sb x)"
  from Cons.prems(2) a have "c \<noteq> None" "dv \<noteq> None" by simp_all
  then have step: "\<forall>r \<in> set (grades ?d1). student_class r \<noteq> None \<and> division r \<noteq> None"
    using Cons.prems(1) by (intro add_grade_class_division)
  have rest: "\<forall>(io, n, e, c, dv, rl, sb, x) \<in> set cs. c \<noteq> None \<and> dv \<noteq> None"
    using Cons.prems(2) by simp
  have "add_grades (a # cs) d = add_grades cs ?d1"
    by (simp add: a)
  then show ?case
    using Cons.IH [OF step rest] by simp
qed

theorem class_division_as_supplied_witness:
  "map (\<lambda>r. (student_class r, division r))
     (grades (add_grades
      [((True, True), Some ''Alice'', None, Some ''10'', Some ''B'', None, Some ''Math'', Some 80),
       ((True, True), Some ''Bob'', None, Some ''11'', Some ''C'', None, Some ''Art'', Some 70)]
      (init None))) = [(Some ''10'', Some ''B''), (Some ''11'', Some ''C'')] \<and>
   student_class (last (grades (add_grades
      [((True, True), Some ''Alice'', None, Some ''10'', Some ''B'', None, Some ''Math'', Some 80),
       ((True, True), Some ''Bob'', None, Some ''11'', Some ''C'', None, Some ''Art'', Some 70)]
      (init None)))) \<noteq> None \<and>
   division (last (grades (add_grades
      [((True, True), Some ''Alice'', None, Some ''10'', Some ''B'', None, Some ''Math'', Some 80),
       ((True, True), Some ''Bob'', None, Some ''11'', Some ''C'', None, Some ''Art'', Some 70)]
      (init None)))) \<noteq> None"
proof -
  let ?cs = "[((True, True), Some ''Alice'', None, Some ''10'', Some ''B'', None, Some ''Math'', Some 80),
       ((True, True), Some ''Bob'', None, Some ''11'', Some ''C'', None, Some ''Art'', Some 70)]"
  have h1: "\<forall>r \<in> set (grades (init None)). student_class r \<noteq> None \<and> division r \<noteq> None"
    by (simp add: init_def)
  have h2: "\<forall>(io, n, e, c, dv, rl, sb, x) \<in> set ?cs. c \<noteq> None \<and> dv \<noteq> None"
    by simp
  have ev: "grades (add_grades ?cs (init None)) =
      [\<lparr>id_key = 1, student_name = ''Alice'', email = None, student_class = Some ''10'',
        division = Some ''B'', roll_number = None, subject = ''Math'', score = 80\<rparr>,
       \<lparr>id_key = 2, student_name = ''Bob'', email = None, student_class = Some ''11'',
        division = Some ''C'', roll_number = None, subject = ''Art'', score = 70\<rparr>]"
    by (simp add: add_grade_def execute_insert_def commit_def init_def new_rowid_def
        MAX_ROWID_def)
  from class_division_as_supplied [OF h1 h2]
  have "\<forall>r \<in> set (grades (add_grades ?cs (init None))).
          student_class r \<noteq> None \<and> division r \<noteq> None" .
  then have "student_class (last (grades (add_grades ?cs (init None)))) \<noteq> None \<and>
      division (last (grades (add_grades ?cs (init None)))) \<noteq> None"
    unfolding ev by simp
  then show ?thesis
    unfolding ev by simp
qed

section \<open>The name filter\<close>

text \<open>
  A search term without \<^verbatim>\<open>%\<close> and \<^verbatim>\<open>_\<close> is matched as the specification says: the
  pattern \<^verbatim>\<open>%term%\<close> matches a name exactly when the case-folded term occurs in the
  case-folded name.
\<close>

lemma like_literal_prefix:
  assumes "CHR ''%'' \<notin> set s" and "CHR ''_'' \<notin> set s"
  shows "like (s @ ''%'') name \<longleftrightarrow> prefix (case_fold s) (case_fold name)"
  using assms
proof (induction s arbitrary: name)
  case Nil
  then show ?case by (simp add: like_percent case_fold_def)
next
  case (Cons p ps)
  then show ?case
    by (cases name) (auto simp: case_fold_def)
qed

lemma like_literal_term:
  assumes "CHR ''%'' \<notin> set s" and "CHR ''_'' \<notin> set s"
  shows "like (''%'' @ s @ ''%'') name \<longleftrightarrow> spec_name_matches s name"
proof (induction name)
  case Nil
  have "like (s @ ''%'') [] \<longleftrightarrow> s = []"
    using like_literal_prefix [OF assms, of "[]"] by (simp add: case_fold_def)
  then show ?case
    by (simp add: spec_name_matches_def case_fold_def)
next
  case (Cons c cs)
  have "like (''%'' @ s @ ''%'') (c # cs) \<longleftrightarrow>
          like (s @ ''%'') (c # cs) \<or> like (''%'' @ s @ ''%'') cs"
    by simp
  also have "\<dots> \<longleftrightarrow> prefix (case_fold s) (case_fold (c # cs)) \<or> spec_name_matches s cs"
    using like_literal_prefix [OF assms] Cons.IH by simp
  also have "\<dots> \<longleftrightarrow> spec_name_matches s (c # cs)"
    by (simp add: spec_name_matches_def case_fold_def sublist_Cons_right)
  finally show ?case .
qed

lemma get_filtered_grades_literal_term:
  assumes "CHR ''%'' \<notin> set search_term" and "CHR ''_'' \<notin> set search_term"
    and "conn_open d"
  shows "\<exists>rs. get_filtered_grades True d search_term = Inr rs \<and>
           set rs = {r \<in> set (grades d). spec_name_matches search_term (student_name r)}"
  using assms(3) like_literal_term [OF assms(1,2)]
  by (simp add: get_filtered_grades_def execute_select_def)

text \<open>
  Claim C2. The search term is put into the pattern as it is, so a \<^verbatim>\<open>%\<close> or a \<^verbatim>\<open>_\<close> in
  it is a wildcard. On a store whose one row is named \<^verbatim>\<open>Al\<close>, the search term \<^verbatim>\<open>_\<close>
  returns that row, although the name holds no underscore: the row is in the result and
  the case-folded term does not occur in the case-folded name.
\<close>

theorem filter_wildcard_failing_input:
  "get_filtered_grades True
     \<lparr>conn_open = True,
      grades = [\<lparr>id_key = 1, student_name = ''Al'', email = None, student_class = Some ''10'',
                 division = Some ''B'', roll_number = None, subject = ''Math'', score = 90\<rparr>],
      sqlite_sequence = 1\<rparr> ''_'' =
   Inr [\<lparr>id_key = 1, student_name = ''Al'', email = None, student_class = Some ''10'',
                 division = Some ''B'', roll_number = None, subject = ''Math'', score = 90\<rparr>] \<and>
   \<not> spec_name_matches ''_'' ''Al''"
  by (simp add: get_filtered_grades_def execute_select_def order_by_id_desc_def
      spec_name_matches_def case_fold_def lower_ascii_def sublist_code)

end
